theory Spec2Isabelle
  imports Complex_Main "HOL-Library.Word" "HOL-Library.AList" "HOL-Library.Sublist"
begin

section \<open>The AIStor small-file cache of \<^verbatim>\<open>src/aistor/optimizer.py\<close>\<close>

text \<open>
  The class \<^verbatim>\<open>AIStor\<close> keeps an insertion-ordered dictionary from logical paths to
  \<^verbatim>\<open>FileMetadata\<close> objects, a running byte counter, and files under
  \<^verbatim>\<open>/cache/small-files\<close>. The embedding follows the Python text function by
  function. What Python leaves to its environment is made explicit:
  \<^item> a Python \<^verbatim>\<open>str\<close> is a \<open>string\<close> of ASCII characters, \<^verbatim>\<open>bytes\<close> a list of
    8-bit words;
  \<^item> an exception is the \<open>Inl\<close> branch of a sum;
  \<^item> the value of \<^verbatim>\<open>time.time()\<close> is an argument \<open>now\<close> of the operation that reads
    the clock, and \<^verbatim>\<open>hashlib.sha256(data).hexdigest()\<close> is an argument \<open>hexdigest\<close>;
  \<^item> the file system is a map from path strings to file contents in which a write
    always succeeds;
  \<^item> each \<^verbatim>\<open>print\<close> of a cache operation appends an event to a console log.
\<close>

subsection \<open>Strings\<close>

datatype error = ValueError | TypeError | ZeroDivisionError

type_synonym bytes = "8 word list"

definition ascii_lowercase :: string where
  "ascii_lowercase = ''abcdefghijklmnopqrstuvwxyz''"

definition ascii_uppercase :: string where
  "ascii_uppercase = ''ABCDEFGHIJKLMNOPQRSTUVWXYZ''"

text \<open>\<^verbatim>\<open>str.upper\<close> and \<^verbatim>\<open>str.lower\<close>, on ASCII text.\<close>

definition upper_char :: "char \<Rightarrow> char" where
  "upper_char c = (case map_of (zip ascii_lowercase ascii_uppercase) c of
                     Some d \<Rightarrow> d | None \<Rightarrow> c)"

definition lower_char :: "char \<Rightarrow> char" where
  "lower_char c = (case map_of (zip ascii_uppercase ascii_lowercase) c of
                     Some d \<Rightarrow> d | None \<Rightarrow> c)"

definition upper :: "string \<Rightarrow> string" where
  "upper s = map upper_char s"

definition lower :: "string \<Rightarrow> string" where
  "lower s = map lower_char s"

text \<open>\<^verbatim>\<open>s.endswith(suffix)\<close>.\<close>

definition endswith :: "string \<Rightarrow> string \<Rightarrow> bool" where
  "endswith s sfx = (length sfx \<le> length s \<and> drop (length s - length sfx) s = sfx)"

text \<open>\<^verbatim>\<open>s.rfind(c)\<close> for a single character: the last index of \<open>c\<close>, or \<open>-1\<close>.\<close>

fun rfind :: "string \<Rightarrow> char \<Rightarrow> int" where
  "rfind [] c = -1"
| "rfind (x # xs) c =
     (let i = rfind xs c in
      if 0 \<le> i then i + 1 else if x = c then 0 else -1)"

text \<open>\<^verbatim>\<open>s.split(sep)\<close> for a single-character separator.\<close>

fun split :: "char \<Rightarrow> string \<Rightarrow> string list" where
  "split sep [] = [[]]"
| "split sep (x # xs) =
     (if x = sep then [] # split sep xs
      else (case split sep xs of
              [] \<Rightarrow> [[x]]
            | y # ys \<Rightarrow> (x # y) # ys))"

subsection \<open>The built-in \<^verbatim>\<open>int\<close> on strings\<close>

text \<open>
  \<^verbatim>\<open>int(s)\<close> strips surrounding white space, reads an optional sign and then a decimal
  literal: digits, with single underscores allowed between digits. Anything else raises
  \<^verbatim>\<open>ValueError\<close>.
\<close>

definition isspace :: "char \<Rightarrow> bool" where
  "isspace c = (c \<in> set [CHR '' '', CHR 0x09, CHR 0x0A, CHR 0x0B, CHR 0x0C, CHR 0x0D,
                           CHR 0x1C, CHR 0x1D, CHR 0x1E, CHR 0x1F])"

definition strip :: "string \<Rightarrow> string" where
  "strip s = rev (dropWhile isspace (rev (dropWhile isspace s)))"

definition digit_value :: "char \<Rightarrow> int option" where
  "digit_value c = map_of (zip ''0123456789'' [0, 1, 2, 3, 4, 5, 6, 7, 8, 9]) c"

fun decimal_tail :: "int \<Rightarrow> string \<Rightarrow> int option" where
  "decimal_tail acc [] = Some acc"
| "decimal_tail acc [c] =
     (case digit_value c of None \<Rightarrow> None | Some d \<Rightarrow> Some (acc * 10 + d))"
| "decimal_tail acc (c # c' # cs) =
     (if c = CHR ''_'' then
        (case digit_value c' of
           None \<Rightarrow> None
         | Some d \<Rightarrow> decimal_tail (acc * 10 + d) cs)
      else
        (case digit_value c of
           None \<Rightarrow> None
         | Some d \<Rightarrow> decimal_tail (acc * 10 + d) (c' # cs)))"

definition decimal :: "string \<Rightarrow> int option" where
  "decimal s = (case s of
                  [] \<Rightarrow> None
                | c # cs \<Rightarrow> (case digit_value c of
                              None \<Rightarrow> None
                            | Some d \<Rightarrow> decimal_tail d cs))"

definition py_int :: "string \<Rightarrow> error + int" where
  "py_int s =
     (let t = strip s;
          r = (case t of
                 [] \<Rightarrow> None
               | c # cs \<Rightarrow>
                   if c = CHR ''+'' then decimal cs
                   else if c = CHR ''-'' then map_option uminus (decimal cs)
                   else decimal t)
      in case r of None \<Rightarrow> Inl ValueError | Some n \<Rightarrow> Inr n)"

subsection \<open>\<^verbatim>\<open>AIStor._parse_size\<close>\<close>

text \<open>
  The dictionary \<^verbatim>\<open>multipliers\<close> is iterated in the order its literal lists the keys:
  \<^verbatim>\<open>B\<close>, \<^verbatim>\<open>KB\<close>, \<^verbatim>\<open>MB\<close>, \<^verbatim>\<open>GB\<close>. The first suffix that matches decides.
\<close>

definition multipliers :: "(string \<times> int) list" where
  "multipliers = [(''B'', 1), (''KB'', 1024), (''MB'', 1024 ^ 2), (''GB'', 1024 ^ 3)]"

fun parse_size_loop :: "(string \<times> int) list \<Rightarrow> string \<Rightarrow> error + int" where
  "parse_size_loop [] size_str = py_int size_str"
| "parse_size_loop ((sfx, multiplier) # rest) size_str =
     (if endswith size_str sfx then
        (case py_int (take (length size_str - length sfx) size_str) of
           Inl e \<Rightarrow> Inl e
         | Inr n \<Rightarrow> Inr (n * multiplier))
      else parse_size_loop rest size_str)"

definition parse_size :: "string \<Rightarrow> error + int" where
  "parse_size size_str = parse_size_loop multipliers (upper size_str)"

subsection \<open>Paths\<close>

text \<open>
  \<^verbatim>\<open>pathlib.Path\<close> on a POSIX system. The components of a path are the pieces between
  slashes that are neither empty nor a single dot; \<^verbatim>\<open>name\<close> is the last component, or
  the empty string when there is none; \<^verbatim>\<open>suffix\<close> is the part of the name from its last
  dot on, when that dot is neither the first nor the last character of the name.
\<close>

definition path_parts :: "string \<Rightarrow> string list" where
  "path_parts p = filter (\<lambda>x. x \<noteq> [] \<and> x \<noteq> ''.'') (split (CHR ''/'') p)"

definition path_name :: "string \<Rightarrow> string" where
  "path_name p = (case path_parts p of [] \<Rightarrow> [] | x # xs \<Rightarrow> last (x # xs))"

definition path_suffix :: "string \<Rightarrow> string" where
  "path_suffix p =
     (let name = path_name p; i = rfind name (CHR ''.'') in
      if 0 < i \<and> i < int (length name) - 1 then drop (nat i) name else [])"

subsection \<open>The data model\<close>

text \<open>
  The dataclass \<^verbatim>\<open>FileMetadata\<close>; its field \<^verbatim>\<open>size\<close> is \<open>size_bytes\<close> here.
  \<^verbatim>\<open>last_access\<close> holds a clock reading, a real number.
\<close>

record FileMetadata =
  file_path :: string
  size_bytes :: int
  hash :: string
  access_count :: int
  last_access :: real
  cache_location :: "string option"

text \<open>The lines that the cache operations print.\<close>

datatype event =
    Cached string string
  | CacheHit string
  | Evicted string

text \<open>
  An \<^verbatim>\<open>AIStor\<close> object together with the part of the world it acts on. The two
  configuration attributes are set once by the constructor. \<open>metadata_cache\<close> is the
  dictionary, as the list of its items in insertion order: assigning to a key that is
  present keeps its position (\<open>AList.update\<close>), \<^verbatim>\<open>del\<close> removes the item
  (\<open>AList.delete\<close>). \<open>files\<close> maps the path of each regular file to its content, and
  \<open>console\<close> is what has been printed so far, oldest line first.
\<close>

record AIStor =
  small_file_threshold :: int
  cache_size_limit :: int
  metadata_cache :: "(string \<times> FileMetadata) list"
  current_cache_size :: int
  files :: "string \<rightharpoonup> bytes"
  console :: "event list"

definition small_files_dir :: string where
  "small_files_dir = ''/cache/small-files''"

text \<open>
  \<^verbatim>\<open>AIStor.__init__\<close>. The arguments are the two strings that \<^verbatim>\<open>os.getenv\<close> returns
  (the value of the variable, or the default \<^verbatim>\<open>"1048576"\<close> and \<^verbatim>\<open>"1GB"\<close>), the
  decoded content of \<^verbatim>\<open>cache_metadata.json\<close> when that file exists, and the files on
  disk. The start-up banner is not recorded in the console.
\<close>

definition init ::
  "string \<Rightarrow> string \<Rightarrow> (string \<times> FileMetadata) list option \<Rightarrow> (string \<rightharpoonup> bytes)
     \<Rightarrow> error + AIStor" where
  "init SMALL_FILE_THRESHOLD CACHE_SIZE snapshot disk =
     (case py_int SMALL_FILE_THRESHOLD of
        Inl e \<Rightarrow> Inl e
      | Inr threshold \<Rightarrow>
          (case parse_size CACHE_SIZE of
             Inl e \<Rightarrow> Inl e
           | Inr limit \<Rightarrow>
               Inr \<lparr>small_file_threshold = threshold,
                    cache_size_limit = limit,
                    metadata_cache = (case snapshot of None \<Rightarrow> [] | Some d \<Rightarrow> d),
                    current_cache_size = 0,
                    files = disk,
                    console = []\<rparr>))"

subsection \<open>\<^verbatim>\<open>AIStor.should_cache\<close>\<close>

definition robotics_extensions :: "string list" where
  "robotics_extensions = [''.json'', ''.yaml'', ''.yml'', ''.csv'', ''.txt'', ''.pkl'']"

definition should_cache :: "AIStor \<Rightarrow> string \<Rightarrow> int \<Rightarrow> bool" where
  "should_cache self path file_size =
     (if file_size > small_file_threshold self then False
      else lower (path_suffix path) \<in> set robotics_extensions)"

subsection \<open>\<^verbatim>\<open>AIStor._enforce_cache_limits\<close>\<close>

text \<open>
  The low-water test \<^verbatim>\<open>current_cache_size <= cache_size_limit * 0.8\<close>. Python computes
  the product in binary floating point and compares the integer with it exactly; for
  limits of magnitude below \<open>2 ^ 50\<close> the rounding of the product never moves it across
  an integer, so the test has the value it has with the exact product.
\<close>

definition below_low_water :: "AIStor \<Rightarrow> bool" where
  "below_low_water self =
     (real_of_int (current_cache_size self) \<le> real_of_int (cache_size_limit self) * 0.8)"

text \<open>
  One pass through the body of the \<^verbatim>\<open>for\<close> loop, after the \<^verbatim>\<open>break\<close> test:
  \<^verbatim>\<open>Path(None)\<close> raises \<^verbatim>\<open>TypeError\<close>; the file is unlinked and the counter
  decremented only when the file exists; the entry is deleted in either case.
\<close>

definition evict_entry :: "string \<times> FileMetadata \<Rightarrow> AIStor \<Rightarrow> error + AIStor" where
  "evict_entry item self =
     (case cache_location (snd item) of
        None \<Rightarrow> Inl TypeError
      | Some cache_path \<Rightarrow>
          (let self1 =
                 (if files self cache_path \<noteq> None then
                    self\<lparr>files := (files self)(cache_path := None),
                         current_cache_size := current_cache_size self - size_bytes (snd item)\<rparr>
                  else self)
           in Inr (self1\<lparr>metadata_cache := AList.delete (fst item) (metadata_cache self1),
                          console := console self1 @ [Evicted (fst item)]\<rparr>)))"

text \<open>The loop over \<^verbatim>\<open>sorted_files\<close>, a list fixed before the loop starts.\<close>

fun evict_loop :: "(string \<times> FileMetadata) list \<Rightarrow> AIStor \<Rightarrow> error + AIStor" where
  "evict_loop [] self = Inr self"
| "evict_loop (item # rest) self =
     (if below_low_water self then Inr self
      else (case evict_entry item self of
              Inl e \<Rightarrow> Inl e
            | Inr self' \<Rightarrow> evict_loop rest self'))"

text \<open>
  \<^verbatim>\<open>sorted\<close> is stable, and so is \<open>sort_key\<close>: items with equal keys keep the order
  they have in the dictionary.
\<close>

definition sorted_files :: "AIStor \<Rightarrow> (string \<times> FileMetadata) list" where
  "sorted_files self = sort_key (\<lambda>x. last_access (snd x)) (metadata_cache self)"

definition enforce_cache_limits :: "AIStor \<Rightarrow> error + AIStor" where
  "enforce_cache_limits self =
     (if current_cache_size self \<le> cache_size_limit self then Inr self
      else evict_loop (sorted_files self) self)"

subsection \<open>\<^verbatim>\<open>AIStor.cache_file\<close>\<close>

text \<open>
  \<open>hexdigest\<close> stands for \<^verbatim>\<open>hashlib.sha256(data).hexdigest()\<close>, a string of hexadecimal
  digits. The joined path is the directory, a slash and the file name, since that name
  is a single non-empty component.
\<close>

definition cache_path_of :: "(bytes \<Rightarrow> string) \<Rightarrow> string \<Rightarrow> bytes \<Rightarrow> string" where
  "cache_path_of hexdigest path file_data =
     small_files_dir @ ''/'' @ take 16 (hexdigest file_data) @ ''_'' @ path_name path"

definition cache_file ::
  "(bytes \<Rightarrow> string) \<Rightarrow> real \<Rightarrow> string \<Rightarrow> bytes \<Rightarrow> AIStor \<Rightarrow> error + (string \<times> AIStor)" where
  "cache_file hexdigest now path file_data self =
     (let file_hash = take 16 (hexdigest file_data);
          cache_path = cache_path_of hexdigest path file_data;
          self1 = self\<lparr>files := (files self)(cache_path \<mapsto> file_data)\<rparr>;
          metadata = \<lparr>file_path = path,
                      size_bytes = int (length file_data),
                      hash = file_hash,
                      access_count = 1,
                      last_access = now,
                      cache_location = Some cache_path\<rparr>;
          self2 = self1\<lparr>metadata_cache := AList.update path metadata (metadata_cache self1),
                        current_cache_size := current_cache_size self1 + int (length file_data)\<rparr>
      in case enforce_cache_limits self2 of
           Inl e \<Rightarrow> Inl e
         | Inr self3 \<Rightarrow>
             Inr (cache_path, self3\<lparr>console := console self3 @ [Cached path cache_path]\<rparr>))"

subsection \<open>\<^verbatim>\<open>AIStor.get_cached_file\<close>\<close>

text \<open>
  The metadata object is mutated in place on a hit, so the dictionary item changes and
  keeps its position. \<open>now\<close> is read only on a hit.
\<close>

definition get_cached_file ::
  "real \<Rightarrow> string \<Rightarrow> AIStor \<Rightarrow> error + (bytes option \<times> AIStor)" where
  "get_cached_file now path self =
     (case map_of (metadata_cache self) path of
        None \<Rightarrow> Inr (None, self)
      | Some metadata \<Rightarrow>
          (case cache_location metadata of
             None \<Rightarrow> Inl TypeError
           | Some cache_path \<Rightarrow>
               (case files self cache_path of
                  None \<Rightarrow>
                    Inr (None, self\<lparr>metadata_cache := AList.delete path (metadata_cache self)\<rparr>)
                | Some data \<Rightarrow>
                    Inr (Some data,
                         self\<lparr>metadata_cache :=
                                 AList.update path
                                   (metadata\<lparr>access_count := access_count metadata + 1,
                                             last_access := now\<rparr>)
                                   (metadata_cache self),
                               console := console self @ [CacheHit path]\<rparr>))))"

subsection \<open>\<^verbatim>\<open>AIStor.get_cache_stats\<close>\<close>

text \<open>
  The built-in \<^verbatim>\<open>round(x, ndigits)\<close> rounds to the nearest multiple of
  \<open>10 ^ - ndigits\<close>, a tie going to the even neighbour. The float-valued statistics are
  given the values they have in exact arithmetic.
\<close>

definition round_half_even :: "real \<Rightarrow> int" where
  "round_half_even x =
     (let f = \<lfloor>x\<rfloor>; d = x - of_int f in
      if d < 1 / 2 then f else if 1 / 2 < d then f + 1 else if even f then f else f + 1)"

definition py_round :: "real \<Rightarrow> nat \<Rightarrow> real" where
  "py_round x ndigits = of_int (round_half_even (x * 10 ^ ndigits)) / 10 ^ ndigits"

text \<open>
  \<^verbatim>\<open>sorted(items, key=..., reverse=True)\<close>: the items in descending key order, items
  with equal keys in the order they have in \<open>items\<close>.
\<close>

definition sorted_reverse :: "('a \<Rightarrow> 'k::linorder) \<Rightarrow> 'a list \<Rightarrow> 'a list" where
  "sorted_reverse key xs = rev (sort_key key (rev xs))"

record CacheStats =
  total_cached_files :: int
  current_cache_size_mb :: real
  cache_limit_mb :: real
  cache_utilization :: real
  avg_file_size_kb :: real
  most_accessed_files :: "(string \<times> int) list"

definition get_cache_stats :: "AIStor \<Rightarrow> error + CacheStats" where
  "get_cache_stats self =
     (let total_files = int (length (metadata_cache self));
          avg_file_size =
            (if total_files > 0 then real_of_int (current_cache_size self) / real_of_int total_files
             else 0)
      in if cache_size_limit self = 0 then Inl ZeroDivisionError
         else
           Inr \<lparr>total_cached_files = total_files,
                current_cache_size_mb =
                  py_round (real_of_int (current_cache_size self) / 1024 / 1024) 2,
                cache_limit_mb = py_round (real_of_int (cache_size_limit self) / 1024 / 1024) 2,
                cache_utilization =
                  py_round (real_of_int (current_cache_size self)
                              / real_of_int (cache_size_limit self) * 100) 1,
                avg_file_size_kb = py_round (avg_file_size / 1024) 2,
                most_accessed_files =
                  map (\<lambda>x. (fst x, access_count (snd x)))
                    (take 5 (sorted_reverse (\<lambda>x. access_count (snd x)) (metadata_cache self)))\<rparr>)"

section \<open>Notions used to state the properties\<close>

text \<open>The sum of the sizes of all entries of the index.\<close>

definition total_entry_size :: "AIStor \<Rightarrow> int" where
  "total_entry_size self = sum_list (map (\<lambda>x. size_bytes (snd x)) (metadata_cache self))"

text \<open>
  Sequences of calls. \<open>RemoveOutOfBand\<close> is not a method of the class: it is another
  process deleting a file of the cache directory.
\<close>

datatype operation =
    CacheFile real string bytes
  | GetCachedFile real string
  | EnforceCacheLimits
  | RemoveOutOfBand string

fun apply_operation :: "(bytes \<Rightarrow> string) \<Rightarrow> operation \<Rightarrow> AIStor \<Rightarrow> error + AIStor" where
  "apply_operation hexdigest (CacheFile now path file_data) self =
     map_sum id snd (cache_file hexdigest now path file_data self)"
| "apply_operation hexdigest (GetCachedFile now path) self =
     map_sum id snd (get_cached_file now path self)"
| "apply_operation hexdigest EnforceCacheLimits self = enforce_cache_limits self"
| "apply_operation hexdigest (RemoveOutOfBand loc) self =
     Inr (self\<lparr>files := (files self)(loc := None)\<rparr>)"

fun run :: "(bytes \<Rightarrow> string) \<Rightarrow> operation list \<Rightarrow> AIStor \<Rightarrow> error + AIStor" where
  "run hexdigest [] self = Inr self"
| "run hexdigest (op # ops) self =
     (case apply_operation hexdigest op self of
        Inl e \<Rightarrow> Inl e
      | Inr self' \<Rightarrow> run hexdigest ops self')"

text \<open>\<^verbatim>\<open>cache_file(path, data)\<close> followed by \<^verbatim>\<open>get_cached_file(path)\<close>: what the read returns.\<close>

definition cache_then_get ::
  "(bytes \<Rightarrow> string) \<Rightarrow> real \<Rightarrow> real \<Rightarrow> string \<Rightarrow> bytes \<Rightarrow> AIStor \<Rightarrow> error + bytes option" where
  "cache_then_get hexdigest t1 t2 path file_data self =
     (case cache_file hexdigest t1 path file_data self of
        Inl e \<Rightarrow> Inl e
      | Inr (loc, self1) \<Rightarrow>
          (case get_cached_file t2 path self1 of
             Inl e \<Rightarrow> Inl e
           | Inr (r, self2) \<Rightarrow> Inr r))"

subsection \<open>Concrete instances\<close>

text \<open>
  A stand-in digest for the closed instances below; every general statement is proved
  for an arbitrary digest function.
\<close>

definition demo_digest :: "bytes \<Rightarrow> string" where
  "demo_digest file_data = ''0f1e2d3c4b5a69788796a5b4c3d2e1f0''"

text \<open>
  The object the constructor builds when there is no metadata file and the cache
  directory is empty, for a threshold of 1 MiB and a capacity of \<open>limit\<close> bytes.
\<close>

definition fresh_cache :: "int \<Rightarrow> AIStor" where
  "fresh_cache limit =
     \<lparr>small_file_threshold = 1048576, cache_size_limit = limit, metadata_cache = [],
      current_cache_size = 0, files = Map.empty, console = []\<rparr>"

text \<open>
  A cache over its limit of 9 bytes, as it stands inside \<^verbatim>\<open>cache_file\<close> before the
  limits are enforced: \<^verbatim>\<open>a.json\<close> was cached first and read again at time 3,
  \<^verbatim>\<open>b.json\<close> was cached at time 2 and \<^verbatim>\<open>c.json\<close> at time 4.
\<close>

definition demo_entry :: "string \<Rightarrow> int \<Rightarrow> int \<Rightarrow> real \<Rightarrow> string \<times> FileMetadata" where
  "demo_entry name sz count t =
     (name, \<lparr>file_path = name, size_bytes = sz, hash = ''0f1e2d3c4b5a6978'',
             access_count = count, last_access = t,
             cache_location = Some (''/cache/small-files/0f1e2d3c4b5a6978_'' @ name)\<rparr>)"

definition full_cache :: AIStor where
  "full_cache =
     \<lparr>small_file_threshold = 1048576, cache_size_limit = 9,
      metadata_cache = [demo_entry ''a.json'' 4 2 3, demo_entry ''b.json'' 4 1 2,
                        demo_entry ''c.json'' 4 1 4],
      current_cache_size = 12,
      files = [''/cache/small-files/0f1e2d3c4b5a6978_a.json'' \<mapsto> [1, 1, 1, 1],
               ''/cache/small-files/0f1e2d3c4b5a6978_b.json'' \<mapsto> [2, 2, 2, 2],
               ''/cache/small-files/0f1e2d3c4b5a6978_c.json'' \<mapsto> [3, 3, 3, 3]],
      console = []\<rparr>"

text \<open>The same cache before \<^verbatim>\<open>c.json\<close> arrives.\<close>

definition two_entry_cache :: AIStor where
  "two_entry_cache =
     \<lparr>small_file_threshold = 1048576, cache_size_limit = 9,
      metadata_cache = [demo_entry ''a.json'' 4 2 3, demo_entry ''b.json'' 4 1 2],
      current_cache_size = 8,
      files = [''/cache/small-files/0f1e2d3c4b5a6978_a.json'' \<mapsto> [1, 1, 1, 1],
               ''/cache/small-files/0f1e2d3c4b5a6978_b.json'' \<mapsto> [2, 2, 2, 2]],
      console = []\<rparr>"

text \<open>The cache after every file of the cache directory has been deleted out of band.\<close>

definition stale_cache :: AIStor where
  "stale_cache = full_cache\<lparr>files := Map.empty\<rparr>"

lemmas eval_defs =
  init_def parse_size_def multipliers_def upper_def upper_char_def lower_def lower_char_def
  ascii_lowercase_def ascii_uppercase_def endswith_def py_int_def strip_def isspace_def
  decimal_def digit_value_def cache_file_def cache_path_of_def demo_digest_def
  small_files_dir_def path_name_def path_parts_def path_suffix_def enforce_cache_limits_def
  sorted_files_def below_low_water_def evict_entry_def get_cached_file_def fresh_cache_def
  total_entry_size_def should_cache_def robotics_extensions_def get_cache_stats_def
  py_round_def round_half_even_def sorted_reverse_def cache_then_get_def Let_def

lemmas demo_defs = eval_defs demo_entry_def full_cache_def

section \<open>Auxiliary facts\<close>

subsection \<open>Parsing\<close>

lemma decimal_tail_bad_last:
  "digit_value c = None \<Longrightarrow> decimal_tail acc (zs @ [c]) = None"
proof (induction acc zs rule: decimal_tail.induct)
  case (1 acc)
  then show ?case by simp
next
  case (2 acc z)
  then show ?case by (simp split: option.splits)
next
  case (3 acc z z' cs)
  then show ?case by (simp split: option.splits)
qed

lemma decimal_bad_last: "digit_value c = None \<Longrightarrow> decimal (zs @ [c]) = None"
  by (cases zs) (simp_all add: decimal_def decimal_tail_bad_last split: option.splits)

lemma strip_snoc: "\<not> isspace c \<Longrightarrow> strip (xs @ [c]) = dropWhile isspace xs @ [c]"
  by (simp add: strip_def dropWhile_append)

lemma py_int_bad_last:
  assumes "digit_value c = None" "\<not> isspace c"
  shows "py_int (xs @ [c]) = Inl ValueError"
proof -
  define ys where "ys = dropWhile isspace xs"
  have p: "py_int (xs @ [c]) =
        (case (case ys @ [c] of
                 [] \<Rightarrow> None
               | a # cs \<Rightarrow>
                   if a = CHR ''+'' then decimal cs
                   else if a = CHR ''-'' then map_option uminus (decimal cs)
                   else decimal (ys @ [c])) of
           None \<Rightarrow> Inl ValueError
         | Some n \<Rightarrow> Inr n)"
    unfolding ys_def using assms(2) by (simp add: py_int_def strip_snoc Let_def)
  show ?thesis
  proof (cases ys)
    case Nil
    then show ?thesis
      using decimal_bad_last[OF assms(1), of "[]"] by (simp add: p decimal_def)
  next
    case (Cons y zs)
    then show ?thesis
      using decimal_bad_last[OF assms(1), of zs] decimal_bad_last[OF assms(1), of "y # zs"]
      by (simp add: p)
  qed
qed

subsection \<open>The eviction loop\<close>

lemma evict_entry_Inr:
  assumes "evict_entry item self = Inr self'"
  shows "metadata_cache self' = AList.delete (fst item) (metadata_cache self)"
    and "console self' = console self @ [Evicted (fst item)]"
    and "cache_size_limit self' = cache_size_limit self"
    and "small_file_threshold self' = small_file_threshold self"
    and "files self' l = Some d \<Longrightarrow> files self l = Some d"
    and "cache_location (snd item) = Some loc \<Longrightarrow> files self' loc = None"
  using assms
  by (auto simp: evict_entry_def Let_def split: option.splits if_splits)

lemma evict_entry_total:
  "cache_location (snd item) \<noteq> None \<Longrightarrow> \<exists>self'. evict_entry item self = Inr self'"
  by (auto simp: evict_entry_def Let_def split: option.splits)

lemma delete_filter_keys:
  "filter (\<lambda>x. fst x \<notin> K) (AList.delete k al) = filter (\<lambda>x. fst x \<notin> insert k K) al"
  by (induction al) (auto simp: AList.delete_eq)

lemma evict_loop_trace:
  "evict_loop items self = Inr self' \<Longrightarrow>
     \<exists>n\<le>length items.
        console self' = console self @ map (\<lambda>x. Evicted (fst x)) (take n items) \<and>
        metadata_cache self' =
          filter (\<lambda>x. fst x \<notin> fst ` set (take n items)) (metadata_cache self) \<and>
        (n = length items \<or> below_low_water self') \<and>
        (\<forall>k<n. \<exists>s. evict_loop (take k items) self = Inr s \<and> \<not> below_low_water s) \<and>
        cache_size_limit self' = cache_size_limit self"
proof (induction items arbitrary: self)
  case Nil
  then show ?case by simp
next
  case (Cons item rest)
  show ?case
  proof (cases "below_low_water self")
    case True
    with Cons.prems have "self' = self" by simp
    with True show ?thesis by (intro exI[of _ 0]) simp
  next
    case False
    with Cons.prems obtain s1 where e: "evict_entry item self = Inr s1"
      and l: "evict_loop rest s1 = Inr self'"
      by (auto split: sum.splits)
    from Cons.IH[OF l] obtain n where n: "n \<le> length rest"
      "console self' = console s1 @ map (\<lambda>x. Evicted (fst x)) (take n rest)"
      "metadata_cache self' = filter (\<lambda>x. fst x \<notin> fst ` set (take n rest)) (metadata_cache s1)"
      "n = length rest \<or> below_low_water self'"
      "\<forall>k<n. \<exists>s. evict_loop (take k rest) s1 = Inr s \<and> \<not> below_low_water s"
      "cache_size_limit self' = cache_size_limit s1"
      by blast
    have m: "\<exists>s. evict_loop (take k (item # rest)) self = Inr s \<and> \<not> below_low_water s"
      if "k < Suc n" for k
    proof (cases k)
      case 0
      with False show ?thesis by simp
    next
      case (Suc j)
      with that n(5) False e show ?thesis by simp
    qed
    show ?thesis
      using n(1-4,6) m evict_entry_Inr(1-3)[OF e]
      by (intro exI[of _ "Suc n"]) (simp add: delete_filter_keys)
  qed
qed

lemma evict_loop_files:
  "evict_loop items self = Inr self' \<Longrightarrow> files self' l = Some d \<Longrightarrow> files self l = Some d"
proof (induction items arbitrary: self)
  case Nil
  then show ?case by simp
next
  case (Cons item rest)
  then show ?case
    by (auto split: if_splits sum.splits dest: evict_entry_Inr(5))
qed



lemma enforce_trace:
  assumes "enforce_cache_limits self = Inr self'"
  shows "\<exists>n\<le>length (metadata_cache self).
           console self' = console self @ map (\<lambda>x. Evicted (fst x)) (take n (sorted_files self)) \<and>
           metadata_cache self' =
             filter (\<lambda>x. fst x \<notin> fst ` set (take n (sorted_files self))) (metadata_cache self) \<and>
           (cache_size_limit self < current_cache_size self \<longrightarrow>
              n = length (metadata_cache self) \<or> below_low_water self') \<and>
           (\<forall>k<n. \<exists>s. evict_loop (take k (sorted_files self)) self = Inr s \<and>
                       \<not> below_low_water s) \<and>
           cache_size_limit self' = cache_size_limit self"
proof (cases "current_cache_size self \<le> cache_size_limit self")
  case True
  with assms have "self' = self" by (simp add: enforce_cache_limits_def)
  with True show ?thesis by (intro exI[of _ 0]) simp
next
  case False
  with assms have "evict_loop (sorted_files self) self = Inr self'"
    by (simp add: enforce_cache_limits_def)
  from evict_loop_trace[OF this] obtain n where "n \<le> length (sorted_files self)"
    "console self' = console self @ map (\<lambda>x. Evicted (fst x)) (take n (sorted_files self))"
    "metadata_cache self' =
       filter (\<lambda>x. fst x \<notin> fst ` set (take n (sorted_files self))) (metadata_cache self)"
    "n = length (sorted_files self) \<or> below_low_water self'"
    "\<forall>k<n. \<exists>s. evict_loop (take k (sorted_files self)) self = Inr s \<and> \<not> below_low_water s"
    "cache_size_limit self' = cache_size_limit self"
    by blast
  moreover have "length (sorted_files self) = length (metadata_cache self)"
    by (simp add: sorted_files_def)
  ultimately show ?thesis by (intro exI[of _ n]) simp
qed

lemma sorted_files_props:
  "sorted (map (\<lambda>x. last_access (snd x)) (sorted_files self))"
  "filter (\<lambda>x. last_access (snd x) = t) (sorted_files self) =
   filter (\<lambda>x. last_access (snd x) = t) (metadata_cache self)"
  "set (sorted_files self) = set (metadata_cache self)"
  by (simp_all add: sorted_files_def sort_key_stable)

lemma distinct_map_insort_key:
  "distinct (map f (insort_key f x xs)) = (f x \<notin> f ` set xs \<and> distinct (map f xs))"
  by (induction xs) (auto simp: set_insort_key)

lemma distinct_map_sort_key: "distinct (map f (sort_key f xs)) = distinct (map f xs)"
  by (induction xs) (simp_all add: distinct_map_insort_key)

lemma distinct_keys_sorted_files:
  "distinct (map (\<lambda>x. last_access (snd x)) (metadata_cache self)) \<Longrightarrow>
   distinct (map (\<lambda>x. last_access (snd x)) (sorted_files self))"
  by (simp add: sorted_files_def distinct_map_sort_key)

lemma sorted_take_le_drop:
  assumes "sorted (map f xs)" "v \<in> set (take n xs)" "x \<in> set (drop n xs)"
  shows "f v \<le> f x"
proof -
  have "sorted (map f (take n xs) @ map f (drop n xs))"
    using assms(1) by (simp flip: map_append)
  then show ?thesis using assms(2,3) by (auto simp: sorted_append)
qed

lemma full_cache_enforced:
  "\<exists>s. enforce_cache_limits full_cache = Inr s \<and>
        console s = [Evicted ''b.json'', Evicted ''a.json''] \<and>
        map fst (metadata_cache s) = [''c.json''] \<and> current_cache_size s = 4"
  by (simp add: demo_defs)

subsection \<open>What enforcement and \<^verbatim>\<open>cache_file\<close> leave behind\<close>

lemma map_of_filter_key:
  "map_of (filter (\<lambda>x. Q (fst x)) al) k = (if Q k then map_of al k else None)"
  by (induction al) auto

lemma enforce_survivor:
  assumes "enforce_cache_limits self = Inr self'" "map_of (metadata_cache self') p = Some m"
  shows "map_of (metadata_cache self) p = Some m"
proof -
  from enforce_trace[OF assms(1)] obtain n where
    "metadata_cache self' =
       filter (\<lambda>x. fst x \<notin> fst ` set (take n (sorted_files self))) (metadata_cache self)"
    by blast
  with assms(2) show ?thesis
    using map_of_filter_key[of "\<lambda>k. k \<notin> fst ` set (take n (sorted_files self))"
        "metadata_cache self" p]
    by (simp split: if_splits)
qed

lemma enforce_files:
  "enforce_cache_limits self = Inr self' \<Longrightarrow> files self' l = Some d \<Longrightarrow> files self l = Some d"
  by (auto simp: enforce_cache_limits_def split: if_splits dest: evict_loop_files)

lemma cache_file_Inr:
  assumes "cache_file hexdigest now path file_data self = Inr (loc, self1)"
  shows "loc = cache_path_of hexdigest path file_data"
    and "map_of (metadata_cache self1) path = Some m \<Longrightarrow>
           cache_location m = Some loc \<and> size_bytes m = int (length file_data)"
    and "files self1 loc = Some d \<Longrightarrow> d = file_data"
    and "p \<noteq> path \<Longrightarrow> map_of (metadata_cache self1) p = Some m' \<Longrightarrow>
           map_of (metadata_cache self) p = Some m'"
proof -
  let ?loc = "cache_path_of hexdigest path file_data"
  let ?md = "\<lparr>file_path = path, size_bytes = int (length file_data),
              hash = take 16 (hexdigest file_data), access_count = 1, last_access = now,
              cache_location = Some ?loc\<rparr>"
  let ?s2 = "self\<lparr>files := (files self)(?loc \<mapsto> file_data),
                  metadata_cache := AList.update path ?md (metadata_cache self),
                  current_cache_size := current_cache_size self + int (length file_data)\<rparr>"
  from assms obtain s3 where e: "enforce_cache_limits ?s2 = Inr s3"
    and l: "loc = ?loc" and s: "self1 = s3\<lparr>console := console s3 @ [Cached path ?loc]\<rparr>"
    by (auto simp: cache_file_def Let_def split: sum.splits)
  show "loc = ?loc" by (rule l)
  show "cache_location m = Some loc \<and> size_bytes m = int (length file_data)"
    if "map_of (metadata_cache self1) path = Some m"
    using enforce_survivor[OF e, of path m] that s l by (auto simp: AList.update_conv')
  show "d = file_data" if "files self1 loc = Some d"
    using enforce_files[OF e, of loc d] that s l by simp
  show "map_of (metadata_cache self) p = Some m'"
    if "p \<noteq> path" "map_of (metadata_cache self1) p = Some m'"
    using enforce_survivor[OF e, of p m'] that s by (simp add: AList.update_conv')
qed

subsection \<open>Stable descending sort\<close>

lemma sorted_reverse_props:
  "set (sorted_reverse f xs) = set xs"
  "length (sorted_reverse f xs) = length xs"
  "sorted_wrt (\<lambda>a b. b \<le> a) (map f (sorted_reverse f xs))"
  "filter (\<lambda>y. f y = k) (sorted_reverse f xs) = filter (\<lambda>y. f y = k) xs"
proof -
  show "set (sorted_reverse f xs) = set xs" by (simp add: sorted_reverse_def)
  show "length (sorted_reverse f xs) = length xs" by (simp add: sorted_reverse_def)
  have "sorted (map f (sort_key f (rev xs)))" by simp
  then show "sorted_wrt (\<lambda>a b. b \<le> a) (map f (sorted_reverse f xs))"
    by (simp add: sorted_reverse_def rev_map[symmetric] sorted_wrt_rev)
  have "filter (\<lambda>y. f y = k) (sorted_reverse f xs) =
        rev (filter (\<lambda>y. f y = k) (sort_key f (rev xs)))"
    by (simp add: sorted_reverse_def rev_filter)
  also have "\<dots> = rev (filter (\<lambda>y. f y = k) (rev xs))"
    by (simp only: sort_key_stable)
  also have "\<dots> = filter (\<lambda>y. f y = k) xs"
    by (simp add: rev_filter)
  finally show "filter (\<lambda>y. f y = k) (sorted_reverse f xs) = filter (\<lambda>y. f y = k) xs" .
qed

lemma sorted_desc_take_ge_drop:
  assumes "sorted_wrt (\<lambda>a b. b \<le> a) (map f xs)" "v \<in> set (take n xs)" "x \<in> set (drop n xs)"
  shows "f x \<le> f v"
proof -
  have "sorted_wrt (\<lambda>a b. b \<le> a) (map f (take n xs) @ map f (drop n xs))"
    using assms(1) by (simp flip: map_append)
  then show ?thesis using assms(2,3) by (auto simp: sorted_wrt_append)
qed

section \<open>The claims\<close>

subsection \<open>C1: the running counter and the sum of the entry sizes\<close>

text \<open>
  C1 says that \<open>current_cache_size\<close> equals the sum of the sizes of the index entries
  after every operation. The code breaks this. Caching the two bytes \<^verbatim>\<open>{}\<close> twice
  under one logical path leaves one entry of size 2 and a counter of 4, since the
  overwrite adds the new size without taking the old one off. A read that finds the
  backing file gone removes the entry and leaves the counter at 2, although the
  eviction loop takes the size off when it removes an entry. The fresh cache is the
  one the constructor builds from \<^verbatim>\<open>CACHE_SIZE=4096\<close>.
\<close>

theorem size_counter_drifts:
  "init ''1048576'' ''4096'' None Map.empty = Inr (fresh_cache 4096) \<and>
   map_sum id (\<lambda>s. (current_cache_size s, total_entry_size s, map fst (metadata_cache s)))
     (run demo_digest [CacheFile 1 ''run1/pose.json'' [0x7B, 0x7D],
                       CacheFile 2 ''run1/pose.json'' [0x7B, 0x7D]] (fresh_cache 4096)) =
     Inr (4, 2, [''run1/pose.json'']) \<and>
   map_sum id (\<lambda>s. (current_cache_size s, total_entry_size s, map fst (metadata_cache s)))
     (run demo_digest [CacheFile 1 ''run1/pose.json'' [0x7B, 0x7D],
                       RemoveOutOfBand ''/cache/small-files/0f1e2d3c4b5a6978_pose.json'',
                       GetCachedFile 2 ''run1/pose.json''] (fresh_cache 4096)) =
     Inr (2, 0, [])"
  by (simp add: eval_defs)

subsection \<open>C2: parsing a size string\<close>

text \<open>
  C2 says that a number followed by \<^verbatim>\<open>B\<close>, \<^verbatim>\<open>KB\<close>, \<^verbatim>\<open>MB\<close> or \<^verbatim>\<open>GB\<close>, in any
  letter case, parses to the number times 1, 1024, \<open>1024 ^ 2\<close> or \<open>1024 ^ 3\<close>. The code tests the
  suffix \<^verbatim>\<open>B\<close> first, and every string that ends in \<^verbatim>\<open>KB\<close>, \<^verbatim>\<open>MB\<close> or \<^verbatim>\<open>GB\<close> ends
  in \<^verbatim>\<open>B\<close>: the text handed to \<^verbatim>\<open>int\<close> still carries the letter \<^verbatim>\<open>K\<close>, \<^verbatim>\<open>M\<close> or
  \<^verbatim>\<open>G\<close>, and the call raises \<^verbatim>\<open>ValueError\<close>, whatever stands before the unit.
\<close>

theorem parse_size_rejects_unit_suffixes:
  assumes "upper u \<in> {''KB'', ''MB'', ''GB''}"
  shows "parse_size (n @ u) = Inl ValueError"
proof -
  from assms obtain k where k: "upper u = [k, CHR ''B'']" "k \<in> {CHR ''K'', CHR ''M'', CHR ''G''}"
    by auto
  have d: "digit_value k = None" "\<not> isspace k"
    using k(2) by (auto simp: digit_value_def isspace_def)
  have "parse_size (n @ u) = parse_size_loop multipliers ((upper n @ [k]) @ ''B'')"
    using k(1) by (simp add: parse_size_def upper_def)
  also have "\<dots> = (case py_int (upper n @ [k]) of Inl e \<Rightarrow> Inl e | Inr v \<Rightarrow> Inr (v * 1))"
    by (simp add: multipliers_def endswith_def)
  also have "\<dots> = Inl ValueError"
    by (simp add: py_int_bad_last[OF d])
  finally show ?thesis .
qed

text \<open>
  At \<^verbatim>\<open>1GB\<close>, the default of \<^verbatim>\<open>CACHE_SIZE\<close>: the constructor itself fails on it.
\<close>

theorem parse_size_rejects_unit_suffixes_witness:
  "upper ''Gb'' \<in> {''KB'', ''MB'', ''GB''} \<and> parse_size (''1'' @ ''Gb'') = Inl ValueError \<and>
   parse_size ''1GB'' = Inl ValueError \<and>
   init ''1048576'' ''1GB'' None Map.empty = Inl ValueError"
  using parse_size_rejects_unit_suffixes[of "''Gb''" "''1''"]
    parse_size_rejects_unit_suffixes[of "''GB''" "''1''"]
  by (simp add: init_def py_int_def strip_def isspace_def decimal_def digit_value_def
      upper_def upper_char_def ascii_lowercase_def ascii_uppercase_def)

text \<open>What does parse: a plain integer, and a number of bytes.\<close>

lemma parse_size_examples:
  "parse_size ''4096'' = Inr 4096 \<and> parse_size ''512b'' = Inr 512 \<and>
   parse_size ''B'' = Inl ValueError \<and> parse_size ''ten'' = Inl ValueError"
  by (simp add: eval_defs)

subsection \<open>C3: eviction converges to the low-water mark\<close>



subsection \<open>C4: a read heals a stale entry\<close>

text \<open>
  C4: a path without an entry is a miss, the object unchanged. A path whose entry
  names a file that does not exist is answered with \<^verbatim>\<open>None\<close> and no exception, its
  entry is deleted from the index, and a second read of the same path is again
  \<^verbatim>\<open>None\<close> without exception and changes nothing more.
\<close>

theorem self_heal:
  "(map_of (metadata_cache self) path = None \<longrightarrow> get_cached_file now path self = Inr (None, self)) \<and>
   (map_of (metadata_cache self) path = Some md \<and> cache_location md = Some loc \<and>
    files self loc = None \<longrightarrow>
      get_cached_file now path self =
        Inr (None, self\<lparr>metadata_cache := AList.delete path (metadata_cache self)\<rparr>) \<and>
      path \<notin> fst ` set (AList.delete path (metadata_cache self)) \<and>
      get_cached_file now' path (self\<lparr>metadata_cache := AList.delete path (metadata_cache self)\<rparr>) =
        Inr (None, self\<lparr>metadata_cache := AList.delete path (metadata_cache self)\<rparr>))"
  by (simp add: get_cached_file_def AList.delete_conv' AList.delete_notin_dom)

theorem self_heal_witness:
  "map_of (metadata_cache stale_cache) ''missing.json'' = None \<and>
   get_cached_file 5 ''missing.json'' stale_cache = Inr (None, stale_cache) \<and>
   map_of (metadata_cache stale_cache) ''a.json'' = Some (snd (demo_entry ''a.json'' 4 2 3)) \<and>
   cache_location (snd (demo_entry ''a.json'' 4 2 3)) =
     Some ''/cache/small-files/0f1e2d3c4b5a6978_a.json'' \<and>
   files stale_cache ''/cache/small-files/0f1e2d3c4b5a6978_a.json'' = None \<and>
   get_cached_file 5 ''a.json'' stale_cache =
     Inr (None, stale_cache\<lparr>metadata_cache :=
                  [demo_entry ''b.json'' 4 1 2, demo_entry ''c.json'' 4 1 4]\<rparr>) \<and>
   get_cached_file 6 ''a.json''
     (stale_cache\<lparr>metadata_cache := [demo_entry ''b.json'' 4 1 2, demo_entry ''c.json'' 4 1 4]\<rparr>) =
     Inr (None, stale_cache\<lparr>metadata_cache :=
                  [demo_entry ''b.json'' 4 1 2, demo_entry ''c.json'' 4 1 4]\<rparr>)"
  using self_heal[where self = stale_cache and path = "''missing.json''" and now = 5]
    self_heal[where self = stale_cache and path = "''a.json''" and now = 5 and now' = 6
      and md = "snd (demo_entry ''a.json'' 4 2 3)"
      and loc = "''/cache/small-files/0f1e2d3c4b5a6978_a.json''"]
  by (simp add: stale_cache_def full_cache_def demo_entry_def)

subsection \<open>C5: the order of eviction\<close>

text \<open>
  C5: the victims of one enforcement, in the order the console reports them, are an
  initial segment of the entries sorted by \<open>last_access\<close>. So their clock readings
  ascend, strictly when the readings of the index are distinct; victims with equal
  readings leave in the order they have in the dictionary; no victim was used later
  than an entry that stays; when enforcement had to act it stops only below the
  low-water mark or with every entry evicted, and each victim is removed while the
  running total is still above that mark. The victims are a function of the object
  alone, so a second run from the same object chooses the same ones in the same order.
\<close>

theorem lru_eviction_order:
  assumes "enforce_cache_limits self = Inr self'"
  shows "\<exists>victims.
      prefix victims (sorted_files self) \<and>
      console self' = console self @ map (\<lambda>x. Evicted (fst x)) victims \<and>
      metadata_cache self' = filter (\<lambda>x. fst x \<notin> fst ` set victims) (metadata_cache self) \<and>
      sorted (map (\<lambda>x. last_access (snd x)) victims) \<and>
      (distinct (map (\<lambda>x. last_access (snd x)) (metadata_cache self)) \<longrightarrow>
         sorted_wrt (<) (map (\<lambda>x. last_access (snd x)) victims)) \<and>
      (\<forall>t. prefix (filter (\<lambda>x. last_access (snd x) = t) victims)
                  (filter (\<lambda>x. last_access (snd x) = t) (metadata_cache self))) \<and>
      (\<forall>v\<in>set victims. \<forall>x\<in>set (metadata_cache self').
         last_access (snd v) \<le> last_access (snd x)) \<and>
      (cache_size_limit self < current_cache_size self \<longrightarrow>
         victims = sorted_files self \<or> below_low_water self') \<and>
      (\<forall>k<length victims.
         \<exists>s. evict_loop (take k victims) self = Inr s \<and> \<not> below_low_water s)"
proof -
  let ?key = "\<lambda>x. last_access (snd x)"
  from enforce_trace[OF assms] obtain n where n: "n \<le> length (metadata_cache self)"
    "console self' = console self @ map (\<lambda>x. Evicted (fst x)) (take n (sorted_files self))"
    "metadata_cache self' =
       filter (\<lambda>x. fst x \<notin> fst ` set (take n (sorted_files self))) (metadata_cache self)"
    "cache_size_limit self < current_cache_size self \<longrightarrow>
       n = length (metadata_cache self) \<or> below_low_water self'"
    "\<forall>k<n. \<exists>s. evict_loop (take k (sorted_files self)) self = Inr s \<and> \<not> below_low_water s"
    by blast
  let ?v = "take n (sorted_files self)"
  have p: "prefix ?v (sorted_files self)" by (rule take_is_prefix)
  have s: "sorted (map ?key ?v)"
    using sorted_files_props(1)[of self] by (simp add: take_map[symmetric] sorted_wrt_take)
  have d: "sorted_wrt (<) (map ?key ?v)" if "distinct (map ?key (metadata_cache self))"
    using distinct_keys_sorted_files[OF that] s
    by (simp add: strict_sorted_iff take_map[symmetric])
  have t: "prefix (filter (\<lambda>x. ?key x = t) ?v) (filter (\<lambda>x. ?key x = t) (metadata_cache self))" for t
    using filter_mono_prefix[OF p, of "\<lambda>x. ?key x = t"] by (simp add: sorted_files_props(2))
  have l: "?key v \<le> ?key x" if "v \<in> set ?v" "x \<in> set (metadata_cache self')" for v x
  proof -
    from that(2) n(3) have x: "x \<in> set (metadata_cache self)" "x \<notin> set ?v" by auto
    then have "x \<in> set (take n (sorted_files self) @ drop n (sorted_files self))"
      by (simp add: sorted_files_props(3))
    with x(2) have "x \<in> set (drop n (sorted_files self))" by (simp del: append_take_drop_id)
    with that(1) sorted_files_props(1)[of self] show ?thesis
      by (rule_tac sorted_take_le_drop[where xs = "sorted_files self" and n = n])
  qed
  have e: "cache_size_limit self < current_cache_size self \<longrightarrow>
             ?v = sorted_files self \<or> below_low_water self'"
    using n(4) by (auto simp: sorted_files_def)
  have m: "\<exists>s. evict_loop (take k ?v) self = Inr s \<and> \<not> below_low_water s"
    if "k < length ?v" for k
  proof -
    from that have "k < n" by simp
    then have "take k ?v = take k (sorted_files self)" by (simp add: min_def)
    with n(5) \<open>k < n\<close> show ?thesis by simp
  qed
  show ?thesis
    using p n(2,3) s d t l e m by (intro exI[of _ ?v]) blast
qed

theorem lru_eviction_order_witness:
  "\<exists>s. enforce_cache_limits full_cache = Inr s \<and>
       console s = [Evicted ''b.json'', Evicted ''a.json''] \<and>
       map fst (metadata_cache s) = [''c.json''] \<and>
       (\<exists>victims. prefix victims (sorted_files full_cache) \<and>
          console s = console full_cache @ map (\<lambda>x. Evicted (fst x)) victims \<and>
          sorted_wrt (<) (map (\<lambda>x. last_access (snd x)) victims))"
proof -
  from full_cache_enforced obtain s where s: "enforce_cache_limits full_cache = Inr s"
    "console s = [Evicted ''b.json'', Evicted ''a.json'']"
    "map fst (metadata_cache s) = [''c.json'']" by auto
  have d: "distinct (map (\<lambda>x. last_access (snd x)) (metadata_cache full_cache))"
    by (simp add: full_cache_def demo_entry_def)
  from lru_eviction_order[OF s(1)] d obtain victims where v:
    "prefix victims (sorted_files full_cache)"
    "console s = console full_cache @ map (\<lambda>x. Evicted (fst x)) victims"
    "sorted_wrt (<) (map (\<lambda>x. last_access (snd x)) victims)"
    by auto
  show ?thesis
    apply (rule exI[of _ s])
    apply (intro conjI s)
    apply (rule exI[of _ victims])
    apply (intro conjI v)
    done
qed

subsection \<open>C6: caching, then reading back\<close>




subsection \<open>C7: which files are cached\<close>

text \<open>
  C7: a file larger than the threshold is never cached; a file within the threshold is
  cached exactly when the lower-cased suffix of its path is one of \<^verbatim>\<open>.json\<close>,
  \<^verbatim>\<open>.yaml\<close>, \<^verbatim>\<open>.yml\<close>, \<^verbatim>\<open>.csv\<close>, \<^verbatim>\<open>.txt\<close>, \<^verbatim>\<open>.pkl\<close>.
\<close>

theorem should_cache_policy:
  "(small_file_threshold self < file_size \<longrightarrow> \<not> should_cache self path file_size) \<and>
   (file_size \<le> small_file_threshold self \<longrightarrow>
      should_cache self path file_size =
        (lower (path_suffix path) \<in> {''.json'', ''.yaml'', ''.yml'', ''.csv'', ''.txt'', ''.pkl''}))"
  by (simp add: should_cache_def robotics_extensions_def)

theorem should_cache_policy_witness:
  "small_file_threshold (fresh_cache 4096) < 2000000 \<and>
   \<not> should_cache (fresh_cache 4096) ''run1/pose.json'' 2000000 \<and>
   512 \<le> small_file_threshold (fresh_cache 4096) \<and>
   should_cache (fresh_cache 4096) ''run1/Pose.JSON'' 512 \<and>
   \<not> should_cache (fresh_cache 4096) ''run1/video.mp4'' 512"
  using should_cache_policy[where self = "fresh_cache 4096" and file_size = 2000000
      and path = "''run1/pose.json''"]
    should_cache_policy[where self = "fresh_cache 4096" and file_size = 512
      and path = "''run1/Pose.JSON''"]
    should_cache_policy[where self = "fresh_cache 4096" and file_size = 512
      and path = "''run1/video.mp4''"]
  by (simp add: fresh_cache_def path_suffix_def path_name_def path_parts_def lower_def
      lower_char_def ascii_lowercase_def ascii_uppercase_def)

subsection \<open>C8: the statistics\<close>

text \<open>
  C8 (amended): with a capacity limit other than zero, \<^verbatim>\<open>get_cache_stats\<close> returns;
  \<open>total_cached_files\<close> is the number of index entries; the size it reports is
  \<open>current_cache_size_mb\<close>, the running counter divided by \<open>1024 ^ 2\<close> and rounded to two
  decimals; \<open>most_accessed_files\<close> lists at most five entries with their access counts,
  in descending count, entries of equal count in dictionary order, and no entry left
  out has a higher count than a listed one.
\<close>

theorem stats_view:
  assumes "cache_size_limit self \<noteq> 0"
  shows "\<exists>st. get_cache_stats self = Inr st \<and>
     total_cached_files st = int (length (metadata_cache self)) \<and>
     current_cache_size_mb st = py_round (real_of_int (current_cache_size self) / 1024 / 1024) 2 \<and>
     length (most_accessed_files st) = min 5 (length (metadata_cache self)) \<and>
     set (most_accessed_files st) \<subseteq>
       (\<lambda>x. (fst x, access_count (snd x))) ` set (metadata_cache self) \<and>
     sorted_wrt (\<lambda>a b. b \<le> a) (map snd (most_accessed_files st)) \<and>
     (\<forall>c. prefix (filter (\<lambda>e. snd e = c) (most_accessed_files st))
                 (filter (\<lambda>e. snd e = c)
                    (map (\<lambda>x. (fst x, access_count (snd x))) (metadata_cache self)))) \<and>
     (\<forall>x\<in>set (metadata_cache self).
        (fst x, access_count (snd x)) \<notin> set (most_accessed_files st) \<longrightarrow>
        (\<forall>e\<in>set (most_accessed_files st). access_count (snd x) \<le> snd e))"
proof -
  let ?key = "\<lambda>x. access_count (snd x)"
  let ?g = "\<lambda>x. (fst x, access_count (snd x))"
  let ?S = "sorted_reverse ?key (metadata_cache self)"
  let ?L = "map ?g (take 5 ?S)"
  obtain st where st: "get_cache_stats self = Inr st"
    "total_cached_files st = int (length (metadata_cache self))"
    "current_cache_size_mb st = py_round (real_of_int (current_cache_size self) / 1024 / 1024) 2"
    "most_accessed_files st = ?L"
    using assms by (simp add: get_cache_stats_def Let_def)
  have len: "length ?L = min 5 (length (metadata_cache self))"
    by (simp add: sorted_reverse_props(2) min.commute)
  have sub: "set ?L \<subseteq> ?g ` set (metadata_cache self)"
    using set_take_subset[of 5 ?S] by (auto simp: sorted_reverse_props(1))
  have "map snd ?L = take 5 (map ?key ?S)"
    by (simp add: take_map comp_def)
  then have desc: "sorted_wrt (\<lambda>a b. b \<le> a) (map snd ?L)"
    using sorted_reverse_props(3)[of ?key "metadata_cache self"] by (simp add: sorted_wrt_take)
  have ties: "prefix (filter (\<lambda>e. snd e = c) ?L)
                (filter (\<lambda>e. snd e = c) (map ?g (metadata_cache self)))" for c
  proof -
    have "prefix (filter (\<lambda>x. ?key x = c) (take 5 ?S)) (filter (\<lambda>x. ?key x = c) ?S)"
      by (rule filter_mono_prefix[OF take_is_prefix])
    then have "prefix (filter (\<lambda>x. ?key x = c) (take 5 ?S))
                 (filter (\<lambda>x. ?key x = c) (metadata_cache self))"
      by (simp only: sorted_reverse_props(4))
    then have "prefix (map ?g (filter (\<lambda>x. ?key x = c) (take 5 ?S)))
                 (map ?g (filter (\<lambda>x. ?key x = c) (metadata_cache self)))"
      by (rule map_mono_prefix)
    then show ?thesis by (simp add: filter_map comp_def)
  qed
  have top: "access_count (snd x) \<le> snd e"
    if "x \<in> set (metadata_cache self)" "?g x \<notin> set ?L" "e \<in> set ?L" for x e
  proof -
    from that(3) obtain v where v: "v \<in> set (take 5 ?S)" "e = ?g v" by auto
    from that(2) have "x \<notin> set (take 5 ?S)" by auto
    moreover from that(1) have "x \<in> set (take 5 ?S @ drop 5 ?S)"
      by (simp add: sorted_reverse_props(1))
    ultimately have "x \<in> set (drop 5 ?S)" by (simp del: append_take_drop_id)
    with v(1) sorted_reverse_props(3)[of ?key "metadata_cache self"]
    have "?key x \<le> ?key v" by (rule_tac sorted_desc_take_ge_drop[where xs = ?S and n = 5])
    with v(2) show ?thesis by simp
  qed
  show ?thesis
    using st(1,2,3) len sub desc ties top unfolding st(4)[symmetric]
    by (intro exI[of _ st]) blast
qed

theorem stats_view_witness:
  "cache_size_limit full_cache \<noteq> 0 \<and>
   (\<exists>st. get_cache_stats full_cache = Inr st \<and> total_cached_files st = 3 \<and>
      most_accessed_files st = [(''a.json'', 2), (''b.json'', 1), (''c.json'', 1)] \<and>
      sorted_wrt (\<lambda>a b. b \<le> a) (map snd (most_accessed_files st)))"
proof -
  have h: "cache_size_limit full_cache \<noteq> 0" by (simp add: full_cache_def)
  from stats_view[OF h] obtain st where st: "get_cache_stats full_cache = Inr st"
    "total_cached_files st = int (length (metadata_cache full_cache))"
    "sorted_wrt (\<lambda>a b. b \<le> a) (map snd (most_accessed_files st))" by blast
  have "\<exists>st. get_cache_stats full_cache = Inr st \<and>
      most_accessed_files st = [(''a.json'', 2), (''b.json'', 1), (''c.json'', 1)]"
    by (simp add: demo_defs)
  with st h show ?thesis by (auto simp: full_cache_def)
qed

text \<open>
  C8 as stated asks for a byte count equal to the sum of the entry sizes. The result has
  no such field: for two entries of 4 bytes, with the counter at 8, the size reported
  is 0 megabytes.
\<close>

theorem stats_counterexample:
  "map_sum id current_cache_size_mb
     (get_cache_stats (two_entry_cache\<lparr>cache_size_limit := 4096\<rparr>)) = Inr 0 \<and>
   current_cache_size (two_entry_cache\<lparr>cache_size_limit := 4096\<rparr>) = 8 \<and>
   total_entry_size (two_entry_cache\<lparr>cache_size_limit := 4096\<rparr>) = 8"
  by (simp add: demo_defs two_entry_cache_def)

subsection \<open>C9: one cache location for equal names and payloads\<close>

text \<open>
  C9: the location \<^verbatim>\<open>cache_file\<close> returns is the cache directory, the first 16
  digits of the payload's digest and the last component of the logical path. Two
  distinct logical paths with the same last component, cached with the same payload,
  get the same location; while both entries are in the index they name one file, and
  evicting either entry unlinks it, so that a read of the other path returns \<^verbatim>\<open>None\<close>.
\<close>

theorem shared_cache_location:
  assumes "path_name p1 = path_name p2" and "p1 \<noteq> p2"
    and c1: "cache_file hexdigest t1 p1 b self = Inr (loc1, self1)"
    and c2: "cache_file hexdigest t2 p2 b self1 = Inr (loc2, self2)"
    and m1: "map_of (metadata_cache self2) p1 = Some m1"
    and m2: "map_of (metadata_cache self2) p2 = Some m2"
  shows "loc1 = small_files_dir @ ''/'' @ take 16 (hexdigest b) @ ''_'' @ path_name p1 \<and>
         loc2 = loc1 \<and>
         cache_location m1 = Some loc1 \<and> cache_location m2 = Some loc1 \<and>
         (\<exists>s. evict_entry (p1, m1) self2 = Inr s \<and> files s loc1 = None \<and>
              (\<exists>s'. get_cached_file t3 p2 s = Inr (None, s'))) \<and>
         (\<exists>s. evict_entry (p2, m2) self2 = Inr s \<and> files s loc1 = None \<and>
              (\<exists>s'. get_cached_file t3 p1 s = Inr (None, s')))"
proof -
  have l1: "loc1 = cache_path_of hexdigest p1 b" using cache_file_Inr(1)[OF c1] .
  have l2: "loc2 = cache_path_of hexdigest p2 b" using cache_file_Inr(1)[OF c2] .
  have eq: "loc2 = loc1" using l1 l2 assms(1) by (simp add: cache_path_of_def)
  have k2: "cache_location m2 = Some loc1" using cache_file_Inr(2)[OF c2 m2] eq by simp
  have "map_of (metadata_cache self1) p1 = Some m1"
    using cache_file_Inr(4)[OF c2 assms(2) m1] .
  then have k1: "cache_location m1 = Some loc1" using cache_file_Inr(2)[OF c1] by simp
  have ev: "\<exists>s. evict_entry (p, m) self2 = Inr s \<and> files s loc1 = None \<and>
              (\<exists>s'. get_cached_file t3 q s = Inr (None, s'))"
    if "cache_location m = Some loc1" "map_of (metadata_cache self2) q = Some mq"
       "cache_location mq = Some loc1" "p \<noteq> q" for p m q mq
  proof -
    from that(1) obtain s where s: "evict_entry (p, m) self2 = Inr s"
      using evict_entry_total[of "(p, m)" self2] by auto
    have f: "files s loc1 = None" using evict_entry_Inr(6)[OF s, of loc1] that(1) by simp
    have "map_of (metadata_cache s) q = Some mq"
      using evict_entry_Inr(1)[OF s] that(2,4) by (simp add: AList.delete_conv')
    with f that(3) have "\<exists>s'. get_cached_file t3 q s = Inr (None, s')"
      by (simp add: get_cached_file_def)
    with s f show ?thesis by blast
  qed
  show ?thesis
    using l1 eq k1 k2 ev[OF k1 m2 k2 assms(2)] ev[OF k2 m1 k1 assms(2)[symmetric]]
    by (simp add: cache_path_of_def)
qed

theorem shared_cache_location_witness:
  "path_name ''run1/pose.json'' = path_name ''run2/pose.json'' \<and>
   ''run1/pose.json'' \<noteq> ''run2/pose.json'' \<and>
   (\<exists>loc1 self1 loc2 self2 m1 m2.
      cache_file demo_digest 1 ''run1/pose.json'' [0x7B, 0x7D] (fresh_cache 4096) = Inr (loc1, self1) \<and>
      cache_file demo_digest 2 ''run2/pose.json'' [0x7B, 0x7D] self1 = Inr (loc2, self2) \<and>
      map_of (metadata_cache self2) ''run1/pose.json'' = Some m1 \<and>
      map_of (metadata_cache self2) ''run2/pose.json'' = Some m2 \<and>
      loc1 = ''/cache/small-files/0f1e2d3c4b5a6978_pose.json'' \<and> loc2 = loc1 \<and>
      (\<exists>s. evict_entry (''run1/pose.json'', m1) self2 = Inr s \<and> files s loc1 = None \<and>
           (\<exists>s'. get_cached_file 3 ''run2/pose.json'' s = Inr (None, s'))))"
proof -
  have n: "path_name ''run1/pose.json'' = path_name ''run2/pose.json''"
    by (simp add: path_name_def path_parts_def)
  have d: "''run1/pose.json'' \<noteq> ''run2/pose.json''" by simp
  have "\<exists>loc1 self1 loc2 self2 m1 m2.
      cache_file demo_digest 1 ''run1/pose.json'' [0x7B, 0x7D] (fresh_cache 4096) = Inr (loc1, self1) \<and>
      cache_file demo_digest 2 ''run2/pose.json'' [0x7B, 0x7D] self1 = Inr (loc2, self2) \<and>
      map_of (metadata_cache self2) ''run1/pose.json'' = Some m1 \<and>
      map_of (metadata_cache self2) ''run2/pose.json'' = Some m2"
    by (simp add: eval_defs)
  then obtain loc1 self1 loc2 self2 m1 m2 where h:
    "cache_file demo_digest 1 ''run1/pose.json'' [0x7B, 0x7D] (fresh_cache 4096) = Inr (loc1, self1)"
    "cache_file demo_digest 2 ''run2/pose.json'' [0x7B, 0x7D] self1 = Inr (loc2, self2)"
    "map_of (metadata_cache self2) ''run1/pose.json'' = Some m1"
    "map_of (metadata_cache self2) ''run2/pose.json'' = Some m2"
    by blast
  have l: "small_files_dir @ ''/'' @ take 16 (demo_digest [0x7B, 0x7D]) @ ''_'' @
             path_name ''run1/pose.json'' = ''/cache/small-files/0f1e2d3c4b5a6978_pose.json''"
    by (simp add: eval_defs)
  note t = shared_cache_location[OF n d h, of 3]
  from t l have r1: "loc1 = ''/cache/small-files/0f1e2d3c4b5a6978_pose.json''" by simp
  from t have r2: "loc2 = loc1" by (elim conjE)
  from t have r3: "\<exists>s. evict_entry (''run1/pose.json'', m1) self2 = Inr s \<and> files s loc1 = None \<and>
           (\<exists>s'. get_cached_file 3 ''run2/pose.json'' s = Inr (None, s'))"
    by (elim conjE)
  show ?thesis
    apply (rule conjI[OF n])
    apply (rule conjI[OF d])
    apply (rule exI[of _ loc1])
    apply (rule exI[of _ self1])
    apply (rule exI[of _ loc2])
    apply (rule exI[of _ self2])
    apply (rule exI[of _ m1])
    apply (rule exI[of _ m2])
    apply (intro conjI h r1 r2 r3)
    done
qed

subsection \<open>C10: a location returned for an entry already evicted\<close>

text \<open>
  C10: on an empty index, a payload larger than 0.8 times the capacity that takes the
  running total above the capacity is evicted by the very call that caches it: the
  call returns the location, the index is empty again, no file is at the location, and
  a read of the path returns \<^verbatim>\<open>None\<close>.
\<close>

theorem cache_file_returns_evicted_location:
  assumes "metadata_cache self = []" and "0 \<le> current_cache_size self"
    and "real_of_int (cache_size_limit self) * 0.8 < real (length file_data)"
    and "cache_size_limit self < current_cache_size self + int (length file_data)"
  shows "\<exists>s'. cache_file hexdigest t path file_data self =
                 Inr (cache_path_of hexdigest path file_data, s') \<and>
              metadata_cache s' = [] \<and>
              files s' (cache_path_of hexdigest path file_data) = None \<and>
              console s' = console self @ [Evicted path,
                 Cached path (cache_path_of hexdigest path file_data)] \<and>
              get_cached_file t' path s' = Inr (None, s')"
  using assms
  by (simp add: cache_file_def Let_def enforce_cache_limits_def sorted_files_def
      below_low_water_def evict_entry_def get_cached_file_def)

theorem cache_file_returns_evicted_location_witness:
  "metadata_cache (fresh_cache 4) = [] \<and> 0 \<le> current_cache_size (fresh_cache 4) \<and>
   real_of_int (cache_size_limit (fresh_cache 4)) * 0.8 < real (length [1, 2, 3, 4, 5 :: 8 word]) \<and>
   cache_size_limit (fresh_cache 4) <
     current_cache_size (fresh_cache 4) + int (length [1, 2, 3, 4, 5 :: 8 word]) \<and>
   (\<exists>s'. cache_file demo_digest 1 ''run1/pose.json'' [1, 2, 3, 4, 5] (fresh_cache 4) =
            Inr (''/cache/small-files/0f1e2d3c4b5a6978_pose.json'', s') \<and>
         metadata_cache s' = [] \<and>
         files s' ''/cache/small-files/0f1e2d3c4b5a6978_pose.json'' = None \<and>
         get_cached_file 2 ''run1/pose.json'' s' = Inr (None, s'))"
proof -
  have h: "metadata_cache (fresh_cache 4) = []" "0 \<le> current_cache_size (fresh_cache 4)"
    "real_of_int (cache_size_limit (fresh_cache 4)) * 0.8 < real (length [1, 2, 3, 4, 5 :: 8 word])"
    "cache_size_limit (fresh_cache 4) <
       current_cache_size (fresh_cache 4) + int (length [1, 2, 3, 4, 5 :: 8 word])"
    by (simp_all add: fresh_cache_def)
  have l: "cache_path_of demo_digest ''run1/pose.json'' [1, 2, 3, 4, 5] =
           ''/cache/small-files/0f1e2d3c4b5a6978_pose.json''"
    by (simp add: eval_defs)
  from cache_file_returns_evicted_location[OF h, of demo_digest 1 "''run1/pose.json''" 2]
  show ?thesis using h unfolding l by blast
qed

end
